theory Spec2Isabelle
  imports Complex_Main
begin

section \<open>Binomial option pricing: the program\<close>

text \<open>
  The repository is one notebook cell with two functions, \<open>option_payoff\<close> and
  \<open>option_prices\<close>. Python floats are idealised as \<^typ>\<open>real\<close> (no rounding, no overflow),
  \<open>np.exp\<close> is \<^const>\<open>exp\<close>. The statements proved are therefore kept to what rounding
  leaves alone: which exception is raised, equalities between a stored value and the
  expression the code stores, orders that come from an exact \<open>max\<close>, and one strict
  order between two values that are about 50 apart. Everything else follows the code: exceptions are values of
  \<open>error + 'a\<close>, the three dictionaries map a layer index to a list object, the list
  objects live in a store so that the sharing created by
  \<open>option_values[n_steps-1] = option_payoffs[n_steps-1]\<close> is part of the model, and the
  nested \<open>for\<close> loops are folds over \<open>range\<close>.
\<close>

subsection \<open>Exceptions\<close>

datatype error =
    OptionTypeInvalid
  | OptionSpeciesInvalid
  | ZeroDivisionError
  | KeyError
  | IndexError
  | TypeError

definition rbind :: "error + 'a \<Rightarrow> ('a \<Rightarrow> error + 'b) \<Rightarrow> error + 'b" where
  "rbind m f = (case m of Inl e \<Rightarrow> Inl e | Inr x \<Rightarrow> f x)"

text \<open>True division of Python floats: a zero divisor raises.\<close>

definition pydiv :: "real \<Rightarrow> real \<Rightarrow> error + real" where
  "pydiv a b = (if b = 0 then Inl ZeroDivisionError else Inr (a / b))"

subsection \<open>The payoff evaluator\<close>

definition option_payoff :: "string \<Rightarrow> real \<Rightarrow> real \<Rightarrow> error + real" where
  "option_payoff option_type asset_price strike_price =
     (if option_type = ''call'' then Inr (max 0 (asset_price - strike_price))
      else if option_type = ''put'' then Inr (max 0 (strike_price - asset_price))
      else Inl OptionTypeInvalid)"

subsection \<open>Lists, dictionaries and the store\<close>

text \<open>
  A cell of a layer is \<open>None\<close> (the placeholder of the comprehension) or a number.
  Each list created by the three dictionary comprehensions is an object of its own; its
  identity is the comprehension it comes from and the layer it was created for.
\<close>

type_synonym cell = "real option"

datatype ref = StockRow nat | PayoffRow nat | ValueRow nat

type_synonym store = "ref \<Rightarrow> cell list"

type_synonym dict = "nat \<rightharpoonup> ref"

record state =
  stock_prices :: dict
  option_payoffs :: dict
  option_values :: dict
  heap :: store

text \<open>\<open>range(n)\<close> for a Python integer \<open>n\<close>: empty when \<open>n\<close> is not positive.\<close>

definition pyrange :: "int \<Rightarrow> nat list" where
  "pyrange n = [0..<nat n]"

text \<open>\<open>d[k]\<close>: the keys are the non-negative integers the comprehension ran over.\<close>

definition dict_get :: "dict \<Rightarrow> int \<Rightarrow> error + ref" where
  "dict_get d k =
     (if k < 0 then Inl KeyError
      else case d (nat k) of None \<Rightarrow> Inl KeyError | Some a \<Rightarrow> Inr a)"

text \<open>\<open>xs[j]\<close> and \<open>xs[j] = c\<close> for an index that comes from a \<open>range\<close>.\<close>

definition list_get :: "cell list \<Rightarrow> nat \<Rightarrow> error + cell" where
  "list_get xs j = (if j < length xs then Inr (xs ! j) else Inl IndexError)"

definition list_set :: "cell list \<Rightarrow> nat \<Rightarrow> cell \<Rightarrow> error + cell list" where
  "list_set xs j c = (if j < length xs then Inr (xs[j := c]) else Inl IndexError)"

text \<open>Arithmetic on a placeholder raises \<open>TypeError\<close>.\<close>

definition num :: "cell \<Rightarrow> error + real" where
  "num c = (case c of None \<Rightarrow> Inl TypeError | Some x \<Rightarrow> Inr x)"

text \<open>\<open>d[i][j]\<close> read, and \<open>d[i][j] = c\<close>, which mutates the list object in the store.\<close>

definition get_node :: "dict \<Rightarrow> store \<Rightarrow> int \<Rightarrow> nat \<Rightarrow> error + cell" where
  "get_node d h i j = rbind (dict_get d i) (\<lambda>a. list_get (h a) j)"

definition set_node :: "dict \<Rightarrow> store \<Rightarrow> int \<Rightarrow> nat \<Rightarrow> cell \<Rightarrow> error + store" where
  "set_node d h i j c =
     rbind (dict_get d i) (\<lambda>a. rbind (list_set (h a) j c) (\<lambda>xs. Inr (h(a := xs))))"

text \<open>A \<open>for\<close> loop over a list of indices; an exception in the body ends it.\<close>

fun for_loop :: "'a list \<Rightarrow> ('a \<Rightarrow> 's \<Rightarrow> error + 's) \<Rightarrow> 's \<Rightarrow> error + 's" where
  "for_loop [] body s = Inr s"
| "for_loop (x # xs) body s = rbind (body x s) (for_loop xs body)"

subsection \<open>The lattice pricer\<close>

text \<open>
  \<open>{i: [None for _ in range(i+1)] for i in range(n_steps)}\<close>, three times. The store
  holds the fresh lists; the dictionaries hold their references.
\<close>

definition fresh_dict :: "(nat \<Rightarrow> ref) \<Rightarrow> int \<Rightarrow> dict" where
  "fresh_dict mk n = (\<lambda>i. if i \<in> set (pyrange n) then Some (mk i) else None)"

definition fresh_store :: store where
  "fresh_store a = (case a of
       StockRow i \<Rightarrow> map (\<lambda>_. None) (pyrange (int i + 1))
     | PayoffRow i \<Rightarrow> map (\<lambda>_. None) (pyrange (int i + 1))
     | ValueRow i \<Rightarrow> map (\<lambda>_. None) (pyrange (int i + 1)))"

definition init_state :: "int \<Rightarrow> state" where
  "init_state n =
     \<lparr>stock_prices = fresh_dict StockRow n,
      option_payoffs = fresh_dict PayoffRow n,
      option_values = fresh_dict ValueRow n,
      heap = fresh_store\<rparr>"

text \<open>
  Body of the forward loops (the indices come from \<open>range(n_steps)\<close> and \<open>range(i+1)\<close>, so
  the exponent \<open>i - j\<close> is not negative there):
  \<^verbatim>\<open>
  stock_prices[i][j] = stock_init_price * (u**(i-j)) * (v**(j))
  option_payoffs[i][j] = option_payoff(option_type, stock_prices[i][j], strike_price)
  \<close>
  The argument of \<open>option_payoff\<close> is read back from the cell written one line before.
\<close>

definition forward_node ::
  "string \<Rightarrow> real \<Rightarrow> real \<Rightarrow> real \<Rightarrow> real \<Rightarrow> nat \<Rightarrow> nat \<Rightarrow> state \<Rightarrow> error + state" where
  "forward_node option_type strike_price stock_init_price u v i j s =
     rbind (set_node (stock_prices s) (heap s) (int i) j
              (Some (stock_init_price * u ^ (i - j) * v ^ j))) (\<lambda>h1.
     rbind (get_node (stock_prices s) h1 (int i) j) (\<lambda>c.
     rbind (num c) (\<lambda>asset_price.
     rbind (option_payoff option_type asset_price strike_price) (\<lambda>p.
     rbind (set_node (option_payoffs s) h1 (int i) j (Some p)) (\<lambda>h2.
     Inr (s\<lparr>heap := h2\<rparr>))))))"

definition forward_pass ::
  "string \<Rightarrow> real \<Rightarrow> real \<Rightarrow> real \<Rightarrow> real \<Rightarrow> int \<Rightarrow> state \<Rightarrow> error + state" where
  "forward_pass option_type strike_price stock_init_price u v n =
     for_loop (pyrange n) (\<lambda>i.
       for_loop (pyrange (int i + 1)) (\<lambda>j.
         forward_node option_type strike_price stock_init_price u v i j))"

text \<open>
  The expression both branches of the backward loop evaluate:
  \<^verbatim>\<open>
  (option_values[i_retro][j]-option_values[i_retro][j+1])/(u-v)
    + (u*option_values[i_retro][j+1]-v*option_values[i_retro][j])
        /((u-v)*np.exp(risk_free_rate*step_size))
  \<close>
  The two cells are read, subtracted and divided in this order; the second summand reads
  the same two cells again. Its divisor is zero only for \<open>u = v\<close>, which the first
  quotient has rejected by then.
\<close>

definition continuation ::
  "dict \<Rightarrow> store \<Rightarrow> int \<Rightarrow> nat \<Rightarrow> real \<Rightarrow> real \<Rightarrow> real \<Rightarrow> real \<Rightarrow> error + real" where
  "continuation d h i_retro j u v risk_free_rate step_size =
     rbind (get_node d h i_retro j) (\<lambda>c1.
     rbind (get_node d h i_retro (j + 1)) (\<lambda>c2.
     rbind (num c1) (\<lambda>up.
     rbind (num c2) (\<lambda>down.
     rbind (pydiv (up - down) (u - v)) (\<lambda>t1.
     rbind (pydiv (u * down - v * up) ((u - v) * exp (risk_free_rate * step_size))) (\<lambda>t2.
     Inr (t1 + t2)))))))"

text \<open>
  Body of the backward loops, with \<open>i_retro = n_steps-i-1\<close> computed first:
  \<^verbatim>\<open>
  if option_species == 'european':
      option_values[i_retro-1][j] = <continuation>
  elif option_species == 'american':
      option_values[i_retro-1][j] = max(<continuation>,
          option_payoff(option_type, stock_prices[i_retro-1][j], strike_price))
  else:
      raise OptionSpeciesInvalid()
  \<close>
\<close>

definition backward_node ::
  "string \<Rightarrow> string \<Rightarrow> real \<Rightarrow> real \<Rightarrow> real \<Rightarrow> real \<Rightarrow> real \<Rightarrow> int \<Rightarrow> nat \<Rightarrow> nat \<Rightarrow>
   state \<Rightarrow> error + state" where
  "backward_node option_type option_species strike_price u v risk_free_rate step_size
      n i j s =
     (let i_retro = n - int i - 1 in
      if option_species = ''european'' then
        rbind (continuation (option_values s) (heap s) i_retro j u v
                 risk_free_rate step_size) (\<lambda>c.
        rbind (set_node (option_values s) (heap s) (i_retro - 1) j (Some c)) (\<lambda>h.
        Inr (s\<lparr>heap := h\<rparr>)))
      else if option_species = ''american'' then
        rbind (continuation (option_values s) (heap s) i_retro j u v
                 risk_free_rate step_size) (\<lambda>c.
        rbind (get_node (stock_prices s) (heap s) (i_retro - 1) j) (\<lambda>sc.
        rbind (num sc) (\<lambda>asset_price.
        rbind (option_payoff option_type asset_price strike_price) (\<lambda>p.
        rbind (set_node (option_values s) (heap s) (i_retro - 1) j (Some (max c p))) (\<lambda>h.
        Inr (s\<lparr>heap := h\<rparr>))))))
      else Inl OptionSpeciesInvalid)"

definition backward_pass ::
  "string \<Rightarrow> string \<Rightarrow> real \<Rightarrow> real \<Rightarrow> real \<Rightarrow> real \<Rightarrow> real \<Rightarrow> int \<Rightarrow> state \<Rightarrow> error + state" where
  "backward_pass option_type option_species strike_price u v risk_free_rate step_size n =
     for_loop (pyrange n) (\<lambda>i.
       for_loop (pyrange (n - int i - 1)) (\<lambda>j.
         backward_node option_type option_species strike_price u v risk_free_rate
           step_size n i j))"

text \<open>
  \<open>option_values[n_steps-1] = option_payoffs[n_steps-1]\<close>: the right-hand side is looked
  up first; the dictionary entry then refers to the same list object.
\<close>

definition share_last_layer :: "int \<Rightarrow> state \<Rightarrow> error + state" where
  "share_last_layer n s =
     rbind (dict_get (option_payoffs s) (n - 1)) (\<lambda>a.
     Inr (s\<lparr>option_values := (option_values s)(nat (n - 1) \<mapsto> a)\<rparr>))"

text \<open>
  What the caller holds after \<open>return [stock_prices, option_payoffs, option_values]\<close>:
  each dictionary read through the store as it is when the function returns.
\<close>

type_synonym lattice = "nat \<rightharpoonup> cell list"

definition view :: "store \<Rightarrow> dict \<Rightarrow> lattice" where
  "view h d = (\<lambda>i. map_option h (d i))"

text \<open>
  The function itself. It starts with
  \<^verbatim>\<open>
  step_size =  tot_time/n_steps
  n_steps += 1
  \<close>
  so \<open>n\<close> below, and in the loops above, is the incremented \<open>n_steps\<close>, the number of
  layers, while \<open>step_size\<close> comes from the argument as passed.
\<close>

definition option_prices ::
  "string \<Rightarrow> string \<Rightarrow> real \<Rightarrow> real \<Rightarrow> real \<Rightarrow> real \<Rightarrow> real \<Rightarrow> real \<Rightarrow> int \<Rightarrow>
   error + (lattice \<times> lattice \<times> lattice)" where
  "option_prices option_type option_species strike_price stock_init_price u v
      risk_free_rate tot_time n_steps =
     rbind (pydiv tot_time (of_int n_steps)) (\<lambda>step_size.
     let n = n_steps + 1 in
     rbind (forward_pass option_type strike_price stock_init_price u v n (init_state n)) (\<lambda>s1.
     rbind (share_last_layer n s1) (\<lambda>s2.
     rbind (backward_pass option_type option_species strike_price u v risk_free_rate
              step_size n s2) (\<lambda>s3.
     Inr (view (heap s3) (stock_prices s3),
          view (heap s3) (option_payoffs s3),
          view (heap s3) (option_values s3))))))"

text \<open>
  Reading node \<open>(i, j)\<close> of a returned lattice: \<open>None\<close> when the layer or the position
  is missing or still holds the placeholder.
\<close>

definition node :: "lattice \<Rightarrow> nat \<Rightarrow> nat \<Rightarrow> real option" where
  "node L i j =
     (case L i of None \<Rightarrow> None
      | Some xs \<Rightarrow> if j < length xs then xs ! j else None)"

text \<open>
  \<open>stock_prices, option_payoffs, option_values = option_prices(...)\<close>: the third
  component of what a call returned; no lattice at all when the call raised.
\<close>

definition returned_values :: "error + (lattice \<times> lattice \<times> lattice) \<Rightarrow> lattice" where
  "returned_values res = (case res of Inl e \<Rightarrow> Map.empty | Inr (sp, op, ov) \<Rightarrow> ov)"

section \<open>What the loops compute\<close>

text \<open>
  The definitions of this section are not program text. They name the values the loops
  store and the contents of the store between two iterations, so that the loops can be
  followed step by step.
\<close>

subsection \<open>Node values\<close>

definition valid_kind :: "string \<Rightarrow> bool" where
  "valid_kind kind = (kind = ''call'' \<or> kind = ''put'')"

definition valid_species :: "string \<Rightarrow> bool" where
  "valid_species species = (species = ''european'' \<or> species = ''american'')"

text \<open>The number the forward loop stores at node \<open>(i, j)\<close> of \<open>stock_prices\<close>.\<close>

definition stock :: "real \<Rightarrow> real \<Rightarrow> real \<Rightarrow> nat \<Rightarrow> nat \<Rightarrow> real" where
  "stock S0 u v i j = S0 * u ^ (i - j) * v ^ j"

text \<open>What \<open>option_payoff\<close> returns for a kind it accepts.\<close>

definition pay :: "string \<Rightarrow> real \<Rightarrow> real \<Rightarrow> real" where
  "pay kind K s = (if kind = ''call'' then max 0 (s - K) else max 0 (K - s))"

text \<open>The value of the continuation expression on two numbers, with \<open>D\<close> the exponential.\<close>

definition cont :: "real \<Rightarrow> real \<Rightarrow> real \<Rightarrow> real \<Rightarrow> real \<Rightarrow> real" where
  "cont u v D up down = (up - down) / (u - v) + (u * down - v * up) / ((u - v) * D)"

text \<open>
  The option value the backward loop stores \<open>d\<close> layers below the last layer \<open>N\<close>, at
  position \<open>j\<close>: the payoff for \<open>d = 0\<close>, and one application of the loop body per layer.
\<close>

fun val ::
  "string \<Rightarrow> string \<Rightarrow> real \<Rightarrow> real \<Rightarrow> real \<Rightarrow> real \<Rightarrow> real \<Rightarrow> nat \<Rightarrow> nat \<Rightarrow> nat \<Rightarrow> real" where
  "val kind species K S0 u v D N 0 j = pay kind K (stock S0 u v N j)"
| "val kind species K S0 u v D N (Suc d) j =
     (if species = ''european''
      then cont u v D (val kind species K S0 u v D N d j) (val kind species K S0 u v D N d (Suc j))
      else max (cont u v D (val kind species K S0 u v D N d j)
                  (val kind species K S0 u v D N d (Suc j)))
               (pay kind K (stock S0 u v (N - Suc d) j)))"

declare val.simps [simp del]

subsection \<open>The store between iterations\<close>

text \<open>A row of \<open>k + 1\<close> cells whose first \<open>m\<close> cells hold \<open>f 0, f 1, ...\<close>.\<close>

definition filled :: "(nat \<Rightarrow> real) \<Rightarrow> nat \<Rightarrow> nat \<Rightarrow> cell list" where
  "filled f k m = map (\<lambda>j. Some (f j)) [0..<m] @ replicate (Suc k - m) None"

text \<open>
  How many cells of row \<open>k\<close> the forward loops have written when the outer loop is at
  \<open>i\<close> and the inner loop at \<open>j\<close>; the same for the backward loops, which fill row
  \<open>N - i - 1\<close> in their \<open>i\<close>-th outer iteration.
\<close>

definition cells_done :: "nat \<Rightarrow> nat \<Rightarrow> nat \<Rightarrow> nat" where
  "cells_done i j k = (if k < i then Suc k else if k = i then j else 0)"

definition values_done :: "nat \<Rightarrow> nat \<Rightarrow> nat \<Rightarrow> nat \<Rightarrow> nat" where
  "values_done N i j k =
     (if k < N \<and> N \<le> k + i then Suc k else if Suc (k + i) = N then j else 0)"

definition fwd_store :: "string \<Rightarrow> real \<Rightarrow> real \<Rightarrow> real \<Rightarrow> real \<Rightarrow> nat \<Rightarrow> nat \<Rightarrow> store" where
  "fwd_store kind K S0 u v i j a = (case a of
       StockRow k \<Rightarrow> filled (stock S0 u v k) k (cells_done i j k)
     | PayoffRow k \<Rightarrow> filled (\<lambda>c. pay kind K (stock S0 u v k c)) k (cells_done i j k)
     | ValueRow k \<Rightarrow> replicate (Suc k) None)"

definition bwd_store ::
  "string \<Rightarrow> string \<Rightarrow> real \<Rightarrow> real \<Rightarrow> real \<Rightarrow> real \<Rightarrow> real \<Rightarrow> nat \<Rightarrow> nat \<Rightarrow> nat \<Rightarrow> store" where
  "bwd_store kind species K S0 u v D N i j a = (case a of
       ValueRow k \<Rightarrow> filled (val kind species K S0 u v D N (N - k)) k (values_done N i j k)
     | _ \<Rightarrow> fwd_store kind K S0 u v (Suc N) 0 a)"

text \<open>The state after the last layer of \<open>option_values\<close> was made to share the payoff row.\<close>

definition shared_state :: "nat \<Rightarrow> store \<Rightarrow> state" where
  "shared_state N h =
     \<lparr>stock_prices = fresh_dict StockRow (int N + 1),
      option_payoffs = fresh_dict PayoffRow (int N + 1),
      option_values = (fresh_dict ValueRow (int N + 1))(N \<mapsto> PayoffRow N),
      heap = h\<rparr>"

text \<open>The triangular lattice with \<open>f i j\<close> at node \<open>(i, j)\<close>, layers \<open>0..N\<close>.\<close>

definition tri :: "(nat \<Rightarrow> nat \<Rightarrow> real) \<Rightarrow> nat \<Rightarrow> lattice" where
  "tri f N = (\<lambda>i. if i \<le> N then Some (map (\<lambda>j. Some (f i j)) [0..<Suc i]) else None)"

section \<open>Following the loops\<close>

subsection \<open>Loops\<close>

lemma rbind_Inl [simp]: "rbind (Inl e) f = Inl e"
  by (simp add: rbind_def)

lemma rbind_Inr [simp]: "rbind (Inr x) f = f x"
  by (simp add: rbind_def)

lemma for_loop_append:
  "for_loop (xs @ ys) body s = rbind (for_loop xs body s) (for_loop ys body)"
  by (induction xs arbitrary: s) (auto simp: rbind_def split: sum.splits)

lemma for_loop_chain:
  assumes "\<And>k. k < m \<Longrightarrow> body k (F k) = Inr (F (Suc k))"
  shows "for_loop [0..<m] body (F 0) = Inr (F m)"
  using assms
proof (induction m)
  case 0
  show ?case by simp
next
  case (Suc m)
  have "for_loop [0..<m] body (F 0) = Inr (F m)"
    using Suc by simp
  then show ?case
    using Suc.prems [of m] by (simp add: for_loop_append)
qed

lemma for_loop_first_fails:
  assumes "0 < m" "body 0 s = Inl e"
  shows "for_loop [0..<m] body s = Inl e"
proof -
  have "[0..<m] = 0 # [Suc 0..<m]"
    using assms(1) by (simp add: upt_conv_Cons)
  then show ?thesis
    using assms(2) by simp
qed

subsection \<open>The forward pass\<close>

text \<open>
  Each node of the forward loops takes the store with \<open>j\<close> cells of row \<open>i\<close> written to the
  store with \<open>j + 1\<close> of them written, and changes nothing else.
\<close>

lemma option_payoff_valid:
  "valid_kind kind \<Longrightarrow> option_payoff kind s K = Inr (pay kind K s)"
  by (auto simp: option_payoff_def pay_def valid_kind_def)

lemma option_payoff_invalid:
  "\<not> valid_kind kind \<Longrightarrow> option_payoff kind s K = Inl OptionTypeInvalid"
  by (auto simp: option_payoff_def valid_kind_def)

lemma length_filled: "m \<le> Suc k \<Longrightarrow> length (filled f k m) = Suc k"
  by (simp add: filled_def)

lemma nth_filled: "j < m \<Longrightarrow> filled f k m ! j = Some (f j)"
  by (simp add: filled_def nth_append)

lemma filled_update:
  assumes "j \<le> k"
  shows "(filled f k j)[j := Some (f j)] = filled f k (Suc j)"
proof -
  have "Suc k - j = Suc (k - j)"
    using assms by simp
  then show ?thesis
    by (simp add: filled_def list_update_append)
qed

lemma fwd_store_row_end:
  "fwd_store kind K S0 u v i (Suc i) = fwd_store kind K S0 u v (Suc i) 0"
proof -
  have "cells_done i (Suc i) k = cells_done (Suc i) 0 k" for k
    by (auto simp: cells_done_def)
  then show ?thesis
    by (simp add: fwd_store_def fun_eq_iff split: ref.splits)
qed

lemma fresh_store_eq: "fresh_store = fwd_store kind K S0 u v 0 0"
  by (auto simp: fresh_store_def fwd_store_def cells_done_def filled_def pyrange_def
      map_replicate_const nat_add_distrib fun_eq_iff split: ref.splits)

lemma dict_get_fresh:
  "int i < n \<Longrightarrow> dict_get (fresh_dict mk n) (int i) = Inr (mk i)"
  by (simp add: dict_get_def fresh_dict_def pyrange_def)

lemma forward_node_step:
  assumes "valid_kind kind" "int i < n" "j \<le> i"
  shows "forward_node kind K S0 u v i j (init_state n\<lparr>heap := fwd_store kind K S0 u v i j\<rparr>)
       = Inr (init_state n\<lparr>heap := fwd_store kind K S0 u v i (Suc j)\<rparr>)"
proof -
  let ?h = "fwd_store kind K S0 u v i j"
  let ?x = "stock S0 u v i j"
  let ?h1 = "?h(StockRow i := filled (stock S0 u v i) i (Suc j))"
  let ?h2 = "?h1(PayoffRow i := filled (\<lambda>c. pay kind K (stock S0 u v i c)) i (Suc j))"
  have d: "cells_done i j i = j" "cells_done i (Suc j) i = Suc j"
    by (simp_all add: cells_done_def)
  have s1: "set_node (fresh_dict StockRow n) ?h (int i) j (Some ?x) = Inr ?h1"
    using assms(2,3)
    by (simp add: set_node_def dict_get_fresh list_set_def fwd_store_def d
        length_filled filled_update)
  have g1: "get_node (fresh_dict StockRow n) ?h1 (int i) j = Inr (Some ?x)"
    using assms(2,3)
    by (simp add: get_node_def dict_get_fresh list_get_def length_filled nth_filled)
  have s2: "set_node (fresh_dict PayoffRow n) ?h1 (int i) j (Some (pay kind K ?x)) = Inr ?h2"
    using assms(2,3) filled_update [of j i "\<lambda>c. pay kind K (stock S0 u v i c)"]
    by (simp add: set_node_def dict_get_fresh list_set_def fwd_store_def d length_filled)
  have e: "?h2 = fwd_store kind K S0 u v i (Suc j)"
    by (auto simp: fun_eq_iff fwd_store_def cells_done_def split: ref.splits)
  show ?thesis
    using s1 g1 s2 e assms(1)
    by (simp add: forward_node_def init_state_def stock_def [symmetric] num_def
        option_payoff_valid)
qed

lemma forward_row:
  assumes "valid_kind kind" "int i < n"
  shows "for_loop (pyrange (int i + 1)) (forward_node kind K S0 u v i)
           (init_state n\<lparr>heap := fwd_store kind K S0 u v i 0\<rparr>)
       = Inr (init_state n\<lparr>heap := fwd_store kind K S0 u v (Suc i) 0\<rparr>)"
proof -
  have r: "pyrange (int i + 1) = [0..<Suc i]"
    by (simp add: pyrange_def nat_add_distrib)
  have "for_loop [0..<Suc i] (forward_node kind K S0 u v i)
           (init_state n\<lparr>heap := fwd_store kind K S0 u v i 0\<rparr>)
       = Inr (init_state n\<lparr>heap := fwd_store kind K S0 u v i (Suc i)\<rparr>)"
    by (rule for_loop_chain [where F = "\<lambda>j. init_state n\<lparr>heap := fwd_store kind K S0 u v i j\<rparr>"])
      (simp add: forward_node_step assms)
  then show ?thesis
    by (simp add: r fwd_store_row_end)
qed

lemma forward_pass_ok:
  assumes "valid_kind kind"
  shows "forward_pass kind K S0 u v n (init_state n)
       = Inr (init_state n\<lparr>heap := fwd_store kind K S0 u v (nat n) 0\<rparr>)"
proof -
  have "for_loop [0..<nat n] (\<lambda>i. for_loop (pyrange (int i + 1)) (forward_node kind K S0 u v i))
           (init_state n\<lparr>heap := fwd_store kind K S0 u v 0 0\<rparr>)
       = Inr (init_state n\<lparr>heap := fwd_store kind K S0 u v (nat n) 0\<rparr>)"
    by (rule for_loop_chain [where F = "\<lambda>i. init_state n\<lparr>heap := fwd_store kind K S0 u v i 0\<rparr>"])
      (simp add: forward_row assms)
  moreover have "init_state n\<lparr>heap := fwd_store kind K S0 u v 0 0\<rparr> = init_state n"
    by (simp add: init_state_def fresh_store_eq [symmetric])
  ultimately show ?thesis
    by (simp add: forward_pass_def pyrange_def)
qed

subsection \<open>The backward pass\<close>

text \<open>
  The last layer of \<open>option_values\<close> is the payoff row itself. The backward loops read
  it but write rows \<open>N - 1\<close> down to \<open>0\<close> only, so the stock and payoff rows stay as the
  forward pass left them.
\<close>

lemma heap_shared_state [simp]: "heap (shared_state N h) = h"
  by (simp add: shared_state_def)

lemma shared_state_heap_update [simp]: "shared_state N h\<lparr>heap := h'\<rparr> = shared_state N h'"
  by (simp add: shared_state_def)

lemma share_last_layer_ok:
  "share_last_layer (int N + 1) (init_state (int N + 1)\<lparr>heap := h\<rparr>) = Inr (shared_state N h)"
proof -
  have "dict_get (fresh_dict PayoffRow (int N + 1)) (int N) = Inr (PayoffRow N)"
    by (rule dict_get_fresh) simp
  then show ?thesis
    by (simp add: share_last_layer_def init_state_def shared_state_def)
qed

lemma bwd_store_start:
  "fwd_store kind K S0 u v (Suc N) 0 = bwd_store kind species K S0 u v D N 0 0"
  by (auto simp: fun_eq_iff bwd_store_def fwd_store_def values_done_def filled_def
      split: ref.splits)

lemma continuation_ok:
  assumes "get_node d h ir j = Inr (Some a)" "get_node d h ir (j + 1) = Inr (Some b)" "u \<noteq> v"
  shows "continuation d h ir j u v r step = Inr (cont u v (exp (r * step)) a b)"
  using assms by (simp add: continuation_def num_def pydiv_def cont_def)

lemma continuation_zero_div:
  assumes "get_node d h ir j = Inr (Some a)" "get_node d h ir (j + 1) = Inr (Some b)"
  shows "continuation d h ir j u u r step = Inl ZeroDivisionError"
  using assms by (simp add: continuation_def num_def pydiv_def)

lemma get_value:
  assumes "i < N" "c \<le> N - i"
  shows "get_node (option_values (shared_state N h))
           (bwd_store kind species K S0 u v D N i j) (int (N - i)) c
         = Inr (Some (val kind species K S0 u v D N i c))"
proof (cases "i = 0")
  case True
  have "dict_get ((fresh_dict ValueRow (int N + 1))(N \<mapsto> PayoffRow N)) (int N) = Inr (PayoffRow N)"
    by (simp add: dict_get_def)
  then show ?thesis
    using True assms
    by (simp add: get_node_def shared_state_def bwd_store_def fwd_store_def cells_done_def
        list_get_def length_filled nth_filled val.simps)
next
  case False
  then have ne: "N - i \<noteq> N" and lt: "int (N - i) < int N + 1"
    using assms by simp_all
  have "dict_get ((fresh_dict ValueRow (int N + 1))(N \<mapsto> PayoffRow N)) (int (N - i))
      = Inr (ValueRow (N - i))"
    using ne dict_get_fresh [OF lt, of ValueRow] by (simp add: dict_get_def)
  moreover have "values_done N i j (N - i) = Suc (N - i)"
    using assms False by (simp add: values_done_def)
  moreover have "N - (N - i) = i"
    using assms by simp
  ultimately show ?thesis
    using assms
    by (simp add: get_node_def shared_state_def bwd_store_def list_get_def length_filled
        nth_filled)
qed

lemma backward_node_step:
  assumes "valid_kind kind" "valid_species species" "u \<noteq> v" "i < N" "j < N - i"
  shows "backward_node kind species K u v r step (int N + 1) i j
           (shared_state N (bwd_store kind species K S0 u v (exp (r * step)) N i j))
       = Inr (shared_state N (bwd_store kind species K S0 u v (exp (r * step)) N i (Suc j)))"
proof -
  let ?D = "exp (r * step)"
  let ?B = "bwd_store kind species K S0 u v ?D N i j"
  let ?s = "shared_state N ?B"
  let ?k = "N - Suc i"
  let ?c = "cont u v ?D (val kind species K S0 u v ?D N i j) (val kind species K S0 u v ?D N i (Suc j))"
  let ?p = "pay kind K (stock S0 u v ?k j)"
  let ?w = "val kind species K S0 u v ?D N (Suc i) j"
  have ir: "int N + 1 - int i - 1 = int (N - i)" "int (N - i) - 1 = int ?k"
    using assms(4) by simp_all
  have k: "?k < N" "?k \<noteq> N" "int ?k < int N + 1" "N - ?k = Suc i" "j \<le> ?k"
    using assms(4,5) by simp_all
  have g1: "get_node (option_values ?s) ?B (int (N - i)) j
      = Inr (Some (val kind species K S0 u v ?D N i j))"
    using assms(4,5) by (intro get_value) simp_all
  have g2: "get_node (option_values ?s) ?B (int (N - i)) (j + 1)
      = Inr (Some (val kind species K S0 u v ?D N i (Suc j)))"
    using assms(4,5) get_value [of i N "Suc j"] by simp
  have c: "continuation (option_values ?s) ?B (int (N - i)) j u v r step = Inr ?c"
    using g1 g2 assms(3) by (rule continuation_ok)
  have dk: "dict_get (option_values ?s) (int ?k) = Inr (ValueRow ?k)"
    using k(2) dict_get_fresh [OF k(3), of ValueRow]
    by (simp add: dict_get_def shared_state_def)
  have vd: "values_done N i j ?k = j"
    using assms(4) unfolding values_done_def by auto
  have row: "?B (ValueRow ?k) = filled (val kind species K S0 u v ?D N (Suc i)) ?k j"
    by (simp add: bwd_store_def vd k(4))
  have upd: "(filled (val kind species K S0 u v ?D N (Suc i)) ?k j)[j := Some ?w]
      = filled (val kind species K S0 u v ?D N (Suc i)) ?k (Suc j)"
    using k(5) by (rule filled_update)
  have w: "set_node (option_values ?s) ?B (int ?k) j (Some ?w)
      = Inr (?B(ValueRow ?k := filled (val kind species K S0 u v ?D N (Suc i)) ?k (Suc j)))"
    using k(5) by (simp add: set_node_def dk row list_set_def length_filled upd)
  have e: "?B(ValueRow ?k := filled (val kind species K S0 u v ?D N (Suc i)) ?k (Suc j))
      = bwd_store kind species K S0 u v ?D N i (Suc j)"
    using assms(4) k(4)
    by (auto simp: fun_eq_iff bwd_store_def values_done_def split: ref.splits)
  have st: "get_node (stock_prices ?s) ?B (int ?k) j = Inr (Some (stock S0 u v ?k j))"
    using k(5) dict_get_fresh [OF k(3), of StockRow]
    by (simp add: get_node_def shared_state_def bwd_store_def fwd_store_def cells_done_def
        list_get_def length_filled nth_filled)
  show ?thesis
  proof (cases "species = ''european''")
    case True
    then have "?w = ?c" by (simp add: val.simps)
    then show ?thesis
      using True c w e
      by (simp add: backward_node_def ir)
  next
    case False
    then have am: "species = ''american''"
      using assms(2) by (simp add: valid_species_def)
    have "?w = max ?c ?p"
      using False by (simp add: val.simps)
    then show ?thesis
      using am c st w e assms(1)
      by (simp add: backward_node_def ir num_def option_payoff_valid)
  qed
qed

lemma bwd_store_row_end:
  assumes "i \<le> N"
  shows "bwd_store kind species K S0 u v D N i (N - i) = bwd_store kind species K S0 u v D N (Suc i) 0"
proof -
  have "values_done N i (N - i) k = values_done N (Suc i) 0 k" for k
    using assms unfolding values_done_def by auto
  then show ?thesis
    by (simp add: bwd_store_def fun_eq_iff split: ref.splits)
qed

lemma backward_row:
  assumes "valid_kind kind" "valid_species species" "u \<noteq> v" "i \<le> N"
  shows "for_loop (pyrange (int N + 1 - int i - 1))
           (backward_node kind species K u v r step (int N + 1) i)
           (shared_state N (bwd_store kind species K S0 u v (exp (r * step)) N i 0))
       = Inr (shared_state N (bwd_store kind species K S0 u v (exp (r * step)) N (Suc i) 0))"
proof -
  let ?F = "\<lambda>j. shared_state N (bwd_store kind species K S0 u v (exp (r * step)) N i j)"
  have "int N + 1 - int i - 1 = int (N - i)"
    using assms(4) by simp
  then have rg: "pyrange (int N + 1 - int i - 1) = [0..<N - i]"
    by (simp add: pyrange_def del: of_nat_diff)
  have "for_loop [0..<N - i] (backward_node kind species K u v r step (int N + 1) i) (?F 0)
      = Inr (?F (N - i))"
  proof (rule for_loop_chain [where F = ?F])
    fix j assume "j < N - i"
    then show "backward_node kind species K u v r step (int N + 1) i j (?F j) = Inr (?F (Suc j))"
      using assms(1,2,3) by (intro backward_node_step) simp_all
  qed
  then show ?thesis
    unfolding rg by (simp only: bwd_store_row_end [OF assms(4)])
qed

lemma backward_pass_ok:
  assumes "valid_kind kind" "valid_species species" "u \<noteq> v"
  shows "backward_pass kind species K u v r step (int N + 1)
           (shared_state N (fwd_store kind K S0 u v (Suc N) 0))
       = Inr (shared_state N (bwd_store kind species K S0 u v (exp (r * step)) N (Suc N) 0))"
proof -
  let ?F = "\<lambda>i. shared_state N (bwd_store kind species K S0 u v (exp (r * step)) N i 0)"
  have rg: "pyrange (int N + 1) = [0..<Suc N]"
    by (simp add: pyrange_def nat_add_distrib)
  have "for_loop [0..<Suc N]
          (\<lambda>i. for_loop (pyrange (int N + 1 - int i - 1))
                 (backward_node kind species K u v r step (int N + 1) i)) (?F 0)
      = Inr (?F (Suc N))"
  proof (rule for_loop_chain [where F = ?F])
    fix i assume "i < Suc N"
    then show "for_loop (pyrange (int N + 1 - int i - 1))
                 (backward_node kind species K u v r step (int N + 1) i) (?F i)
             = Inr (?F (Suc i))"
      using assms by (intro backward_row) simp_all
  qed
  then show ?thesis
    by (simp add: backward_pass_def rg bwd_store_start [symmetric])
qed

subsection \<open>The result of a call that returns\<close>

lemma node_tri: "node (tri f N) i j = (if i \<le> N \<and> j \<le> i then Some (f i j) else None)"
  by (simp add: node_def tri_def del: upt_Suc)

lemma filled_full: "filled f k (Suc k) = map (\<lambda>j. Some (f j)) [0..<Suc k]"
  by (simp add: filled_def)

lemma view_stock:
  "view (bwd_store kind species K S0 u v D N (Suc N) 0) (fresh_dict StockRow (int N + 1))
     = tri (stock S0 u v) N"
  by (auto simp: view_def fresh_dict_def pyrange_def tri_def bwd_store_def fwd_store_def
      cells_done_def filled_full fun_eq_iff simp del: upt_Suc)

lemma view_payoff:
  "view (bwd_store kind species K S0 u v D N (Suc N) 0) (fresh_dict PayoffRow (int N + 1))
     = tri (\<lambda>i j. pay kind K (stock S0 u v i j)) N"
  by (auto simp: view_def fresh_dict_def pyrange_def tri_def bwd_store_def fwd_store_def
      cells_done_def filled_full fun_eq_iff simp del: upt_Suc)

lemma view_value:
  "view (bwd_store kind species K S0 u v D N (Suc N) 0)
       ((fresh_dict ValueRow (int N + 1))(N \<mapsto> PayoffRow N))
     = tri (\<lambda>i. val kind species K S0 u v D N (N - i)) N"
  by (auto simp: view_def fresh_dict_def pyrange_def tri_def bwd_store_def fwd_store_def
      cells_done_def values_done_def filled_full val.simps fun_eq_iff simp del: upt_Suc)

lemma shared_state_sel [simp]:
  "stock_prices (shared_state N h) = fresh_dict StockRow (int N + 1)"
  "option_payoffs (shared_state N h) = fresh_dict PayoffRow (int N + 1)"
  "option_values (shared_state N h) = (fresh_dict ValueRow (int N + 1))(N \<mapsto> PayoffRow N)"
  by (simp_all add: shared_state_def)

lemma option_prices_ok:
  assumes "valid_kind kind" "valid_species species" "u \<noteq> v" "1 \<le> n_steps"
  shows "option_prices kind species K S0 u v r T n_steps
       = Inr (tri (stock S0 u v) (nat n_steps),
              tri (\<lambda>i j. pay kind K (stock S0 u v i j)) (nat n_steps),
              tri (\<lambda>i. val kind species K S0 u v (exp (r * (T / of_int n_steps)))
                     (nat n_steps) (nat n_steps - i)) (nat n_steps))"
proof -
  define N where "N = nat n_steps"
  define step where "step = T / real_of_int n_steps"
  have n: "n_steps + 1 = int N + 1"
    using assms(4) by (simp add: N_def)
  have d: "pydiv T (real_of_int n_steps) = Inr step"
    using assms(4) by (simp add: pydiv_def step_def)
  have f: "forward_pass kind K S0 u v (int N + 1) (init_state (int N + 1))
      = Inr (init_state (int N + 1)\<lparr>heap := fwd_store kind K S0 u v (Suc N) 0\<rparr>)"
    using forward_pass_ok [OF assms(1), of K S0 u v "int N + 1"]
    by (simp add: nat_add_distrib)
  have s: "share_last_layer (int N + 1)
             (init_state (int N + 1)\<lparr>heap := fwd_store kind K S0 u v (Suc N) 0\<rparr>)
      = Inr (shared_state N (fwd_store kind K S0 u v (Suc N) 0))"
    by (rule share_last_layer_ok)
  have b: "backward_pass kind species K u v r step (int N + 1)
             (shared_state N (fwd_store kind K S0 u v (Suc N) 0))
      = Inr (shared_state N (bwd_store kind species K S0 u v (exp (r * step)) N (Suc N) 0))"
    using assms(1,2,3) by (rule backward_pass_ok)
  show ?thesis
    unfolding N_def [symmetric] step_def [symmetric] option_prices_def d n Let_def
    by (simp add: f s b view_stock view_payoff view_value)
qed

subsection \<open>Calls that raise\<close>

lemma forward_node_invalid_kind:
  assumes "\<not> valid_kind kind" "0 < n"
  shows "forward_node kind K S0 u v 0 0 (init_state n) = Inl OptionTypeInvalid"
proof -
  have d: "dict_get (fresh_dict StockRow n) (int 0) = Inr (StockRow 0)"
    using assms(2) by (intro dict_get_fresh) simp
  have l: "fresh_store (StockRow 0) = [None]"
    by (simp add: fresh_store_def pyrange_def)
  show ?thesis
    using d l assms(1)
    by (simp add: forward_node_def init_state_def set_node_def get_node_def list_set_def
        list_get_def num_def option_payoff_invalid)
qed

lemma forward_pass_invalid_kind:
  assumes "\<not> valid_kind kind" "0 < n"
  shows "forward_pass kind K S0 u v n (init_state n) = Inl OptionTypeInvalid"
proof -
  have inner: "for_loop (pyrange (int 0 + 1)) (forward_node kind K S0 u v 0) (init_state n)
      = Inl OptionTypeInvalid"
    using forward_node_invalid_kind [OF assms] by (simp add: pyrange_def)
  have "0 < nat n"
    using assms(2) by simp
  then have "for_loop [0..<nat n]
               (\<lambda>i. for_loop (pyrange (int i + 1)) (forward_node kind K S0 u v i))
               (init_state n) = Inl OptionTypeInvalid"
    using inner by (rule for_loop_first_fails)
  then show ?thesis
    by (simp add: forward_pass_def pyrange_def)
qed

lemma option_prices_invalid_kind:
  assumes "\<not> valid_kind kind" "1 \<le> n_steps"
  shows "option_prices kind species K S0 u v r T n_steps = Inl OptionTypeInvalid"
proof -
  have "forward_pass kind K S0 u v (n_steps + 1) (init_state (n_steps + 1)) = Inl OptionTypeInvalid"
    using assms by (intro forward_pass_invalid_kind) simp_all
  then show ?thesis
    using assms(2) by (simp add: option_prices_def pydiv_def)
qed

lemma option_prices_zero_steps:
  "option_prices kind species K S0 u v r T 0 = Inl ZeroDivisionError"
  by (simp add: option_prices_def pydiv_def)

lemma backward_pass_first_fails:
  assumes "0 < N" "backward_node kind species K u v r step (int N + 1) 0 0 s = Inl e"
  shows "backward_pass kind species K u v r step (int N + 1) s = Inl e"
proof -
  have "for_loop [0..<N] (backward_node kind species K u v r step (int N + 1) 0) s = Inl e"
    using assms by (rule for_loop_first_fails)
  then have inner: "for_loop (pyrange (int N + 1 - int 0 - 1))
          (backward_node kind species K u v r step (int N + 1) 0) s = Inl e"
    by (simp add: pyrange_def)
  have "0 < Suc N"
    by simp
  then have "for_loop [0..<Suc N]
               (\<lambda>i. for_loop (pyrange (int N + 1 - int i - 1))
                      (backward_node kind species K u v r step (int N + 1) i)) s = Inl e"
    using inner by (rule for_loop_first_fails)
  then show ?thesis
    by (simp add: backward_pass_def pyrange_def nat_add_distrib)
qed

lemma option_prices_after_forward:
  assumes "valid_kind kind" "1 \<le> n_steps"
  shows "option_prices kind species K S0 u v r T n_steps
       = rbind (backward_pass kind species K u v r (T / of_int n_steps) (int (nat n_steps) + 1)
                  (shared_state (nat n_steps) (fwd_store kind K S0 u v (Suc (nat n_steps)) 0)))
           (\<lambda>s3. Inr (view (heap s3) (stock_prices s3),
                      view (heap s3) (option_payoffs s3),
                      view (heap s3) (option_values s3)))"
proof -
  define N where "N = nat n_steps"
  have n: "n_steps + 1 = int N + 1"
    using assms(2) by (simp add: N_def)
  have d: "pydiv T (real_of_int n_steps) = Inr (T / real_of_int n_steps)"
    using assms(2) by (simp add: pydiv_def)
  have f: "forward_pass kind K S0 u v (int N + 1) (init_state (int N + 1))
      = Inr (init_state (int N + 1)\<lparr>heap := fwd_store kind K S0 u v (Suc N) 0\<rparr>)"
    using forward_pass_ok [OF assms(1), of K S0 u v "int N + 1"]
    by (simp add: nat_add_distrib)
  show ?thesis
    unfolding N_def [symmetric] option_prices_def d n Let_def
    by (simp add: f share_last_layer_ok)
qed

lemma option_prices_invalid_species:
  assumes "valid_kind kind" "\<not> valid_species species" "1 \<le> n_steps"
  shows "option_prices kind species K S0 u v r T n_steps = Inl OptionSpeciesInvalid"
proof -
  have "backward_node kind species K u v r step (int (nat n_steps) + 1) 0 0 s
      = Inl OptionSpeciesInvalid" for step s
    using assms(2) by (simp add: backward_node_def valid_species_def)
  then have "backward_pass kind species K u v r step (int (nat n_steps) + 1) s
      = Inl OptionSpeciesInvalid" for step s
    using assms(3) by (intro backward_pass_first_fails) simp_all
  then show ?thesis
    by (simp add: option_prices_after_forward [OF assms(1,3)])
qed

lemma option_prices_equal_factors:
  assumes "valid_kind kind" "valid_species species" "1 \<le> n_steps"
  shows "option_prices kind species K S0 u u r T n_steps = Inl ZeroDivisionError"
proof -
  define N where "N = nat n_steps"
  define step where "step = T / real_of_int n_steps"
  define D where "D = exp (r * step)"
  let ?B = "bwd_store kind species K S0 u u D N 0 0"
  have N: "0 < N"
    using assms(3) by (simp add: N_def)
  have g1: "get_node (option_values (shared_state N ?B)) ?B (int (N - 0)) 0
      = Inr (Some (val kind species K S0 u u D N 0 0))"
    using N by (intro get_value) simp_all
  have g2: "get_node (option_values (shared_state N ?B)) ?B (int (N - 0)) (0 + 1)
      = Inr (Some (val kind species K S0 u u D N 0 1))"
    using N get_value [of 0 N 1 h kind species K S0 u u D 0 for h] by simp
  have c: "continuation (option_values (shared_state N ?B)) ?B (int (N - 0)) 0 u u r step
      = Inl ZeroDivisionError"
    using g1 g2 by (rule continuation_zero_div)
  have "backward_node kind species K u u r step (int N + 1) 0 0 (shared_state N ?B)
      = Inl ZeroDivisionError"
    using c assms(2) by (auto simp: backward_node_def valid_species_def)
  then have "backward_pass kind species K u u r step (int N + 1) (shared_state N ?B)
      = Inl ZeroDivisionError"
    using N by (intro backward_pass_first_fails)
  then show ?thesis
    unfolding option_prices_after_forward [OF assms(1,3)] N_def [symmetric] step_def [symmetric]
    by (simp add: bwd_store_start [of kind K S0 u u N species D])
qed

lemma valid_kindI: "kind = ''call'' \<or> kind = ''put'' \<Longrightarrow> valid_kind kind"
  by (simp add: valid_kind_def)

lemma valid_speciesI:
  "species = ''european'' \<or> species = ''american'' \<Longrightarrow> valid_species species"
  by (simp add: valid_species_def)

lemma option_prices_cases:
  assumes "valid_kind kind" "valid_species species" "1 \<le> n_steps"
    and "option_prices kind species K S0 u v r T n_steps = Inr (sp, op, ov)"
  shows "u \<noteq> v"
    and "sp = tri (stock S0 u v) (nat n_steps)"
    and "op = tri (\<lambda>i j. pay kind K (stock S0 u v i j)) (nat n_steps)"
    and "ov = tri (\<lambda>i. val kind species K S0 u v (exp (r * (T / of_int n_steps)))
                     (nat n_steps) (nat n_steps - i)) (nat n_steps)"
proof -
  show ne: "u \<noteq> v"
    using assms option_prices_equal_factors [of kind species n_steps K S0 u r T] by auto
  show "sp = tri (stock S0 u v) (nat n_steps)"
    and "op = tri (\<lambda>i j. pay kind K (stock S0 u v i j)) (nat n_steps)"
    and "ov = tri (\<lambda>i. val kind species K S0 u v (exp (r * (T / of_int n_steps)))
                     (nat n_steps) (nat n_steps - i)) (nat n_steps)"
    using assms(4) option_prices_ok [OF assms(1,2) ne assms(3), of K S0 r T] by simp_all
qed

lemma node_tri_in: "i \<le> N \<Longrightarrow> j \<le> i \<Longrightarrow> node (tri f N) i j = Some (f i j)"
  by (simp add: node_tri)

subsection \<open>Order properties of the stored values\<close>



lemma val_last_layers:
  "val kind ''american'' K S0 u v D N 0 j = val kind ''european'' K S0 u v D N 0 j"
  "val kind ''american'' K S0 u v D N (Suc 0) j
     = max (val kind ''european'' K S0 u v D N (Suc 0) j)
           (pay kind K (stock S0 u v (N - Suc 0) j))"
  by (simp_all add: val.simps)

subsection \<open>A two-step put with a per-step growth factor above \<open>u\<close>\<close>

lemma returned_values_Inr [simp]: "returned_values (Inr (sp, op, ov)) = ov"
  by (simp add: returned_values_def)

lemma exp_one_ge_two: "(2::real) \<le> exp 1"
  using exp_ge_add_one_self [of "1::real"] by simp

lemma put_stock_values:
  "pay ''put'' 100 (stock 100 (6/5) (4/5) 2 0) = 0"
  "pay ''put'' 100 (stock 100 (6/5) (4/5) 2 (Suc 0)) = 4"
  "pay ''put'' 100 (stock 100 (6/5) (4/5) 2 (Suc (Suc 0))) = 36"
  "pay ''put'' 100 (stock 100 (6/5) (4/5) (Suc 0) 0) = 0"
  "pay ''put'' 100 (stock 100 (6/5) (4/5) (Suc 0) (Suc 0)) = 20"
  "pay ''put'' 100 (stock 100 (6/5) (4/5) 0 0) = 0"
  by (simp_all add: pay_def stock_def power2_eq_square)

lemma cont_example:
  assumes "D \<noteq> 0"
  shows "cont (6/5) (4/5) D 0 4 = 12 / D - 10"
    and "cont (6/5) (4/5) D 4 36 = 100 / D - 80"
    and "cont (6/5) (4/5) D 0 20 = 60 / D - 50"
    and "cont (6/5) (4/5) D (12 / D - 10) (100 / D - 80) = 175 - 440 / D + 276 / D\<^sup>2"
  using assms by (simp_all add: cont_def field_simps power2_eq_square)

lemma european_put_example:
  assumes "D \<noteq> 0"
  shows "val ''put'' ''european'' 100 100 (6/5) (4/5) D 2 (Suc (Suc 0)) 0
       = 175 - 440 / D + 276 / D\<^sup>2"
  using assms by (simp add: val.simps put_stock_values cont_example)

lemma american_put_example:
  assumes "2 \<le> D"
  shows "val ''put'' ''american'' 100 100 (6/5) (4/5) D 2 (Suc (Suc 0)) 0 = 0"
proof -
  have d: "12 / D \<le> 6" "100 / D \<le> 50" "60 / D \<le> 30" "D \<noteq> 0"
    using assms by (simp_all add: field_simps)
  have "val ''put'' ''american'' 100 100 (6/5) (4/5) D 2 (Suc 0) 0 = 0"
    using d by (simp add: val.simps put_stock_values cont_example)
  moreover have "val ''put'' ''american'' 100 100 (6/5) (4/5) D 2 (Suc 0) (Suc 0) = 20"
    using d by (simp add: val.simps put_stock_values cont_example)
  ultimately show ?thesis
    using d by (simp add: val.simps [of _ _ _ _ _ _ _ _ "Suc 0"] put_stock_values cont_example)
qed

lemma european_put_example_pos:
  assumes "2 \<le> (D::real)"
  shows "0 < 175 - 440 / D + 276 / D\<^sup>2"
proof -
  have "0 < (5 * D - 6) * (35 * D - 46)"
    using assms by (intro mult_pos_pos) simp_all
  also have "(5 * D - 6) * (35 * D - 46) = (175 - 440 / D + 276 / D\<^sup>2) * D\<^sup>2"
    using assms by (simp add: field_simps power2_eq_square)
  finally show ?thesis
    using assms by (simp add: zero_less_mult_iff)
qed

section \<open>The claims\<close>

text \<open>
  In the statements below \<open>n_steps\<close> is the argument of the call, \<open>nat n_steps\<close> the
  index \<open>N\<close> of the last layer, and \<open>sp\<close>, \<open>op\<close>, \<open>ov\<close> are the stock, payoff and value
  lattices of a call that returned.
\<close>

text \<open>
  Claim C1. For an option kind in \<open>{call, put}\<close>, an option style in
  \<open>{european, american}\<close> and \<open>n_steps \<ge> 1\<close>, the value lattice returned by
  \<open>option_prices\<close> equals the payoff lattice at the maturity layer \<open>N\<close>, node for node:
  for every \<open>j\<close> in \<open>0..N\<close> both hold the same number. A call with \<open>u \<noteq> v\<close> does return;
  one with \<open>u = v\<close> returns nothing, so the second part is about the former only.
\<close>

theorem terminal_layer_equals_payoff:
  assumes "option_type = ''call'' \<or> option_type = ''put''"
    and "option_species = ''european'' \<or> option_species = ''american''"
    and "1 \<le> n_steps"
  shows "(u \<noteq> v \<longrightarrow>
            (\<exists>res. option_prices option_type option_species strike_price stock_init_price
                u v risk_free_rate tot_time n_steps = Inr res))
       \<and> (\<forall>sp op ov j.
            option_prices option_type option_species strike_price stock_init_price
                u v risk_free_rate tot_time n_steps = Inr (sp, op, ov) \<longrightarrow>
            j \<le> nat n_steps \<longrightarrow>
            (\<exists>x. node ov (nat n_steps) j = Some x \<and> node op (nat n_steps) j = Some x))"
proof -
  note k = valid_kindI [OF assms(1)] and s = valid_speciesI [OF assms(2)]
  show ?thesis
  proof (intro conjI impI allI)
    assume "u \<noteq> v"
    then show "\<exists>res. option_prices option_type option_species strike_price stock_init_price
                u v risk_free_rate tot_time n_steps = Inr res"
      using option_prices_ok [OF k s _ assms(3)] by blast
  next
    fix sp op ov j
    assume r: "option_prices option_type option_species strike_price stock_init_price
                u v risk_free_rate tot_time n_steps = Inr (sp, op, ov)"
      and j: "j \<le> nat n_steps"
    show "\<exists>x. node ov (nat n_steps) j = Some x \<and> node op (nat n_steps) j = Some x"
      using j unfolding option_prices_cases(3,4) [OF k s assms(3) r]
      by (simp add: node_tri val.simps)
  qed
qed

theorem terminal_layer_equals_payoff_witness:
  "\<exists>sp op ov.
      option_prices ''put'' ''european'' 100 100 (6/5) (4/5) (1/20) 2 2 = Inr (sp, op, ov)
      \<and> (\<exists>x. node ov 2 1 = Some x \<and> node op 2 1 = Some x)"
  using terminal_layer_equals_payoff
    [of "''put''" "''european''" 2 "6/5" "4/5" 100 100 "1/20" 2]
  by auto

text \<open>
  Claim C2. For an option kind in \<open>{call, put}\<close>, an option style in
  \<open>{european, american}\<close> and \<open>n_steps \<ge> 1\<close>, the forward pass fills both forward lattices:
  for every layer \<open>i\<close> in \<open>0..N\<close> and every \<open>j\<close> in \<open>0..i\<close>, the returned stock lattice
  holds \<open>S0 * u^(i-j) * v^j\<close> at \<open>(i, j)\<close> and the returned payoff lattice holds what
  \<open>option_payoff\<close> returns for that price, which is \<open>max(0, S - K)\<close> for a call and
  \<open>max(0, K - S)\<close> for a put. A call with \<open>u \<noteq> v\<close> does return.
\<close>

theorem forward_pass_fills_lattices:
  assumes "option_type = ''call'' \<or> option_type = ''put''"
    and "option_species = ''european'' \<or> option_species = ''american''"
    and "1 \<le> n_steps"
  shows "(u \<noteq> v \<longrightarrow>
            (\<exists>res. option_prices option_type option_species strike_price stock_init_price
                u v risk_free_rate tot_time n_steps = Inr res))
       \<and> (\<forall>sp op ov i j.
            option_prices option_type option_species strike_price stock_init_price
                u v risk_free_rate tot_time n_steps = Inr (sp, op, ov) \<longrightarrow>
            i \<le> nat n_steps \<longrightarrow> j \<le> i \<longrightarrow>
            (\<exists>s p. node sp i j = Some s \<and> s = stock_init_price * u ^ (i - j) * v ^ j
                 \<and> node op i j = Some p \<and> option_payoff option_type s strike_price = Inr p
                 \<and> (option_type = ''call'' \<longrightarrow> p = max 0 (s - strike_price))
                 \<and> (option_type = ''put'' \<longrightarrow> p = max 0 (strike_price - s))))"
proof -
  note k = valid_kindI [OF assms(1)] and s = valid_speciesI [OF assms(2)]
  show ?thesis
  proof (intro conjI impI allI)
    assume "u \<noteq> v"
    then show "\<exists>res. option_prices option_type option_species strike_price stock_init_price
                u v risk_free_rate tot_time n_steps = Inr res"
      using option_prices_ok [OF k s _ assms(3)] by blast
  next
    fix sp op ov i j
    assume r: "option_prices option_type option_species strike_price stock_init_price
                u v risk_free_rate tot_time n_steps = Inr (sp, op, ov)"
      and i: "i \<le> nat n_steps" and j: "j \<le> i"
    let ?s = "stock_init_price * u ^ (i - j) * v ^ j"
    have "node sp i j = Some ?s"
      using i j unfolding option_prices_cases(2) [OF k s assms(3) r]
      by (simp add: node_tri stock_def)
    moreover have "node op i j = Some (pay option_type strike_price ?s)"
      using i j unfolding option_prices_cases(3) [OF k s assms(3) r]
      by (simp add: node_tri stock_def)
    moreover have "option_payoff option_type ?s strike_price = Inr (pay option_type strike_price ?s)"
      using k by (rule option_payoff_valid)
    moreover have "option_type = ''call'' \<longrightarrow>
        pay option_type strike_price ?s = max 0 (?s - strike_price)"
      by (simp add: pay_def)
    moreover have "option_type = ''put'' \<longrightarrow>
        pay option_type strike_price ?s = max 0 (strike_price - ?s)"
      by (simp add: pay_def)
    ultimately show "\<exists>s p. node sp i j = Some s \<and> s = stock_init_price * u ^ (i - j) * v ^ j
                 \<and> node op i j = Some p \<and> option_payoff option_type s strike_price = Inr p
                 \<and> (option_type = ''call'' \<longrightarrow> p = max 0 (s - strike_price))
                 \<and> (option_type = ''put'' \<longrightarrow> p = max 0 (strike_price - s))"
      by blast
  qed
qed

theorem forward_pass_fills_lattices_witness:
  "\<exists>sp op ov.
      option_prices ''put'' ''european'' 100 100 (6/5) (4/5) (1/20) 2 2 = Inr (sp, op, ov)
      \<and> node sp 2 1 = Some 96 \<and> node op 2 1 = Some 4
      \<and> option_payoff ''put'' 96 100 = Inr 4"
proof -
  have a: "''put'' = ''call'' \<or> ''put'' = ''put''"
    "''european'' = ''european'' \<or> ''european'' = ''american''" "(1::int) \<le> 2"
    by simp_all
  note t = forward_pass_fills_lattices [OF a, where u = "6/5" and v = "4/5" and strike_price = 100
      and stock_init_price = 100 and risk_free_rate = "1/20" and tot_time = 2]
  from t obtain sp op ov where
    r: "option_prices ''put'' ''european'' 100 100 (6/5) (4/5) (1/20) 2 2 = Inr (sp, op, ov)"
    by auto
  have "\<exists>s p. node sp 2 1 = Some s \<and> s = 100 * (6/5) ^ (2 - 1) * (4/5) ^ 1
          \<and> node op 2 1 = Some p \<and> option_payoff ''put'' s 100 = Inr p
          \<and> (''put'' = ''call'' \<longrightarrow> p = max 0 (s - 100))
          \<and> (''put'' = ''put'' \<longrightarrow> p = max 0 (100 - s))"
    by (rule t [THEN conjunct2, rule_format, OF r, of 2 1]) simp_all
  then show ?thesis
    using r by auto
qed

text \<open>
  Claim C3. For the European style, a kind in \<open>{call, put}\<close>, \<open>n_steps = N \<ge> 1\<close> and
  \<open>u \<noteq> v\<close>, the call returns, and for every \<open>i_retro\<close> from \<open>N\<close> down to \<open>1\<close> and every
  \<open>j\<close> in \<open>0..i_retro-1\<close> the returned value lattice satisfies
  \<open>value[i_retro-1][j] = (value[i_retro][j] - value[i_retro][j+1])/(u - v)
    + (u*value[i_retro][j+1] - v*value[i_retro][j])/((u - v) * exp(r * (T/N)))\<close>.
\<close>

theorem european_backward_induction:
  assumes "option_type = ''call'' \<or> option_type = ''put''"
    and "1 \<le> n_steps" and "u \<noteq> v"
  shows "\<exists>sp op ov.
           option_prices option_type ''european'' strike_price stock_init_price u v
             risk_free_rate tot_time n_steps = Inr (sp, op, ov)
         \<and> (\<forall>i_retro j. 1 \<le> i_retro \<longrightarrow> i_retro \<le> nat n_steps \<longrightarrow> j < i_retro \<longrightarrow>
               (\<exists>up down.
                  node ov i_retro j = Some up \<and> node ov i_retro (j + 1) = Some down
                \<and> node ov (i_retro - 1) j
                    = Some ((up - down) / (u - v)
                        + (u * down - v * up)
                            / ((u - v) * exp (risk_free_rate * (tot_time / of_int n_steps))))))"
proof -
  define N where "N = nat n_steps"
  define D where "D = exp (risk_free_rate * (tot_time / of_int n_steps))"
  define V where "V = val option_type ''european'' strike_price stock_init_price u v D N"
  have r: "option_prices option_type ''european'' strike_price stock_init_price u v
             risk_free_rate tot_time n_steps
      = Inr (tri (stock stock_init_price u v) N,
             tri (\<lambda>i j. pay option_type strike_price (stock stock_init_price u v i j)) N,
             tri (\<lambda>i. V (N - i)) N)"
    unfolding N_def D_def V_def
    using valid_kindI [OF assms(1)] _ assms(3,2)
    by (rule option_prices_ok) (simp add: valid_species_def)
  have "\<exists>up down.
          node (tri (\<lambda>i. V (N - i)) N) i j = Some up
        \<and> node (tri (\<lambda>i. V (N - i)) N) i (j + 1) = Some down
        \<and> node (tri (\<lambda>i. V (N - i)) N) (i - 1) j
            = Some ((up - down) / (u - v) + (u * down - v * up) / ((u - v) * D))"
    if i: "1 \<le> i" "i \<le> N" and j: "j < i" for i j
  proof -
    have "N - (i - 1) = Suc (N - i)"
      using i by simp
    then have "V (N - (i - 1)) j = cont u v D (V (N - i) j) (V (N - i) (Suc j))"
      by (simp add: V_def val.simps)
    moreover have "i - 1 \<le> N" "j \<le> i - 1"
      using i j by arith+
    ultimately have "node (tri (\<lambda>i. V (N - i)) N) (i - 1) j
        = Some (cont u v D (V (N - i) j) (V (N - i) (Suc j)))"
      by (simp only: node_tri_in)
    moreover have "node (tri (\<lambda>i. V (N - i)) N) i j = Some (V (N - i) j)"
      and "node (tri (\<lambda>i. V (N - i)) N) i (j + 1) = Some (V (N - i) (Suc j))"
      using i j by (simp_all add: node_tri)
    ultimately show ?thesis
      by (simp add: cont_def)
  qed
  then show ?thesis
    unfolding r N_def [symmetric] D_def [symmetric] by blast
qed

theorem european_backward_induction_witness:
  "\<exists>sp op ov.
      option_prices ''put'' ''european'' 100 100 (6/5) (4/5) (1/20) 2 2 = Inr (sp, op, ov)
    \<and> (\<exists>up down. node ov 2 0 = Some up \<and> node ov 2 (0 + 1) = Some down
         \<and> node ov (2 - 1) 0
             = Some ((up - down) / (6/5 - 4/5)
                 + (6/5 * down - 4/5 * up) / ((6/5 - 4/5) * exp (1/20 * (2 / of_int 2)))))"
proof -
  have a: "''put'' = ''call'' \<or> ''put'' = ''put''" "(1::int) \<le> 2" "(6/5::real) \<noteq> 4/5"
    by simp_all
  from european_backward_induction [OF a, of 100 100 "1/20" 2] obtain sp op ov where
    r: "option_prices ''put'' ''european'' 100 100 (6/5) (4/5) (1/20) 2 2 = Inr (sp, op, ov)"
    and n: "\<forall>i_retro j. 1 \<le> i_retro \<longrightarrow> i_retro \<le> nat 2 \<longrightarrow> j < i_retro \<longrightarrow>
               (\<exists>up down.
                  node ov i_retro j = Some up \<and> node ov i_retro (j + 1) = Some down
                \<and> node ov (i_retro - 1) j
                    = Some ((up - down) / (6/5 - 4/5)
                        + (6/5 * down - 4/5 * up)
                            / ((6/5 - 4/5) * exp (1/20 * (2 / of_int 2)))))"
    by blast
  have "\<exists>up down. node ov 2 0 = Some up \<and> node ov 2 (0 + 1) = Some down
         \<and> node ov (2 - 1) 0
             = Some ((up - down) / (6/5 - 4/5)
                 + (6/5 * down - 4/5 * up) / ((6/5 - 4/5) * exp (1/20 * (2 / of_int 2))))"
    by (rule n [rule_format]) simp_all
  with r show ?thesis
    by blast
qed

text \<open>
  Claim C4. For the American style, a kind in \<open>{call, put}\<close>, \<open>n_steps = N \<ge> 1\<close> and
  \<open>u \<noteq> v\<close>, the call returns, and for every \<open>i_retro\<close> from \<open>N\<close> down to \<open>1\<close> and every
  \<open>j\<close> in \<open>0..i_retro-1\<close>, \<open>value[i_retro-1][j]\<close> is the maximum of the same continuation
  expression as in the European case and of the payoff of the stock price at
  \<open>(i_retro-1, j)\<close>.
\<close>

theorem american_backward_induction:
  assumes "option_type = ''call'' \<or> option_type = ''put''"
    and "1 \<le> n_steps" and "u \<noteq> v"
  shows "\<exists>sp op ov.
           option_prices option_type ''american'' strike_price stock_init_price u v
             risk_free_rate tot_time n_steps = Inr (sp, op, ov)
         \<and> (\<forall>i_retro j. 1 \<le> i_retro \<longrightarrow> i_retro \<le> nat n_steps \<longrightarrow> j < i_retro \<longrightarrow>
               (\<exists>up down s p.
                  node ov i_retro j = Some up \<and> node ov i_retro (j + 1) = Some down
                \<and> node sp (i_retro - 1) j = Some s
                \<and> option_payoff option_type s strike_price = Inr p
                \<and> node ov (i_retro - 1) j
                    = Some (max ((up - down) / (u - v)
                             + (u * down - v * up)
                                 / ((u - v) * exp (risk_free_rate * (tot_time / of_int n_steps))))
                            p)))"
proof -
  define N where "N = nat n_steps"
  define D where "D = exp (risk_free_rate * (tot_time / of_int n_steps))"
  define V where "V = val option_type ''american'' strike_price stock_init_price u v D N"
  define S where "S = stock stock_init_price u v"
  note k = valid_kindI [OF assms(1)]
  have r: "option_prices option_type ''american'' strike_price stock_init_price u v
             risk_free_rate tot_time n_steps
      = Inr (tri S N, tri (\<lambda>i j. pay option_type strike_price (S i j)) N,
             tri (\<lambda>i. V (N - i)) N)"
    unfolding N_def D_def V_def S_def
    using k _ assms(3,2)
    by (rule option_prices_ok) (simp add: valid_species_def)
  have "\<exists>up down s p.
          node (tri (\<lambda>i. V (N - i)) N) i j = Some up
        \<and> node (tri (\<lambda>i. V (N - i)) N) i (j + 1) = Some down
        \<and> node (tri S N) (i - 1) j = Some s
        \<and> option_payoff option_type s strike_price = Inr p
        \<and> node (tri (\<lambda>i. V (N - i)) N) (i - 1) j
            = Some (max ((up - down) / (u - v) + (u * down - v * up) / ((u - v) * D)) p)"
    if i: "1 \<le> i" "i \<le> N" and j: "j < i" for i j
  proof -
    have "N - (i - 1) = Suc (N - i)" "N - Suc (N - i) = i - 1"
      using i by simp_all
    then have "V (N - (i - 1)) j
        = max (cont u v D (V (N - i) j) (V (N - i) (Suc j)))
              (pay option_type strike_price (S (i - 1) j))"
      by (simp add: V_def S_def val.simps)
    moreover have b: "i - 1 \<le> N" "j \<le> i - 1"
      using i j by arith+
    ultimately have "node (tri (\<lambda>i. V (N - i)) N) (i - 1) j
        = Some (max (cont u v D (V (N - i) j) (V (N - i) (Suc j)))
              (pay option_type strike_price (S (i - 1) j)))"
      by (simp only: node_tri_in)
    moreover have "node (tri (\<lambda>i. V (N - i)) N) i j = Some (V (N - i) j)"
      and "node (tri (\<lambda>i. V (N - i)) N) i (j + 1) = Some (V (N - i) (Suc j))"
      using i j by (simp_all add: node_tri)
    moreover have "node (tri S N) (i - 1) j = Some (S (i - 1) j)"
      using b by (rule node_tri_in)
    moreover have "option_payoff option_type (S (i - 1) j) strike_price
        = Inr (pay option_type strike_price (S (i - 1) j))"
      using k by (rule option_payoff_valid)
    ultimately show ?thesis
      by (simp add: cont_def)
  qed
  then show ?thesis
    unfolding r N_def [symmetric] D_def [symmetric] by blast
qed

theorem american_backward_induction_witness:
  "\<exists>sp op ov.
      option_prices ''put'' ''american'' 100 100 (6/5) (4/5) (1/20) 2 2 = Inr (sp, op, ov)
    \<and> (\<exists>up down s p. node ov 2 1 = Some up \<and> node ov 2 (1 + 1) = Some down
         \<and> node sp (2 - 1) 1 = Some s \<and> option_payoff ''put'' s 100 = Inr p
         \<and> node ov (2 - 1) 1
             = Some (max ((up - down) / (6/5 - 4/5)
                      + (6/5 * down - 4/5 * up) / ((6/5 - 4/5) * exp (1/20 * (2 / of_int 2))))
                     p))"
proof -
  have a: "''put'' = ''call'' \<or> ''put'' = ''put''" "(1::int) \<le> 2" "(6/5::real) \<noteq> 4/5"
    by simp_all
  from american_backward_induction [OF a, of 100 100 "1/20" 2] obtain sp op ov where
    r: "option_prices ''put'' ''american'' 100 100 (6/5) (4/5) (1/20) 2 2 = Inr (sp, op, ov)"
    and n: "\<forall>i_retro j. 1 \<le> i_retro \<longrightarrow> i_retro \<le> nat 2 \<longrightarrow> j < i_retro \<longrightarrow>
               (\<exists>up down s p.
                  node ov i_retro j = Some up \<and> node ov i_retro (j + 1) = Some down
                \<and> node sp (i_retro - 1) j = Some s
                \<and> option_payoff ''put'' s 100 = Inr p
                \<and> node ov (i_retro - 1) j
                    = Some (max ((up - down) / (6/5 - 4/5)
                             + (6/5 * down - 4/5 * up)
                                 / ((6/5 - 4/5) * exp (1/20 * (2 / of_int 2))))
                            p))"
    by blast
  have "\<exists>up down s p. node ov 2 1 = Some up \<and> node ov 2 (1 + 1) = Some down
         \<and> node sp (2 - 1) 1 = Some s \<and> option_payoff ''put'' s 100 = Inr p
         \<and> node ov (2 - 1) 1
             = Some (max ((up - down) / (6/5 - 4/5)
                      + (6/5 * down - 4/5 * up) / ((6/5 - 4/5) * exp (1/20 * (2 / of_int 2))))
                     p)"
    by (rule n [rule_format]) simp_all
  with r show ?thesis
    by blast
qed

text \<open>
  Claim C5 says that for \<open>n_steps = 0\<close> the call returns three lattices of one layer
  with one node each. The first statement of \<open>option_prices\<close> is
  \<open>step_size = tot_time/n_steps\<close>, which raises \<open>ZeroDivisionError\<close> for
  \<open>n_steps = 0\<close>: nothing is returned, for example for a European call with strike 100.
\<close>

theorem zero_steps_counterexample:
  "option_prices ''call'' ''european'' 100 100 (6/5) (4/5) (1/20) 2 0 = Inl ZeroDivisionError"
  by (rule option_prices_zero_steps)

text \<open>
  Claim C5, amended. For \<open>n_steps = 0\<close> and any other arguments, \<open>option_prices\<close> raises
  \<open>ZeroDivisionError\<close> when it computes the step size, before any lattice is created, and
  returns no lattice.
\<close>

theorem zero_steps_raises:
  "option_prices option_type option_species strike_price stock_init_price u v
     risk_free_rate tot_time 0 = Inl ZeroDivisionError"
  by (simp add: option_prices_def pydiv_def)

text \<open>
  Claim C6 says that for identical parameters with a kind in \<open>{call, put}\<close>,
  \<open>n_steps \<ge> 1\<close> and \<open>u \<noteq> v\<close> the American value is at least the European value at every
  node. The continuation expression weighs the down value by \<open>(u - D)/((u - v) * D)\<close>
  with \<open>D = exp(r * T/N)\<close>, which is negative once \<open>D\<close> exceeds \<open>u\<close>: a higher value one
  layer up then lowers the value below. For a put with strike 100, \<open>S0 = 100\<close>,
  \<open>u = 1.2\<close>, \<open>v = 0.8\<close>, \<open>r = 1\<close>, \<open>T = 2\<close> and two steps, the American value at node
  \<open>(0, 0)\<close>, two layers below the last, is \<open>0\<close> and the European value there is
  positive (about 50.5).
\<close>

theorem american_below_european_counterexample:
  "node (returned_values (option_prices ''put'' ''american'' 100 100 (6/5) (4/5) 1 2 2)) 0 0
     = Some 0
   \<and> node (returned_values (option_prices ''put'' ''european'' 100 100 (6/5) (4/5) 1 2 2)) 0 0
     = Some (175 - 440 / exp 1 + 276 / (exp 1)\<^sup>2)
   \<and> 0 < 175 - 440 / exp 1 + 276 / (exp 1 :: real)\<^sup>2"
proof -
  have k: "valid_kind ''put''" "valid_species ''american''" "valid_species ''european''"
    by (simp_all add: valid_kind_def valid_species_def)
  have n: "(6/5::real) \<noteq> 4/5" "(1::int) \<le> 2"
    by simp_all
  have D: "exp (1 * (2 / real_of_int 2)) = exp (1::real)" "nat 2 - 0 = Suc (Suc 0)"
    by simp_all
  have "node (returned_values (option_prices ''put'' ''american'' 100 100 (6/5) (4/5) 1 2 2)) 0 0
      = Some (val ''put'' ''american'' 100 100 (6/5) (4/5) (exp 1) 2 (Suc (Suc 0)) 0)"
    unfolding option_prices_ok [OF k(1,2) n] returned_values_Inr D
    by (simp add: node_tri numeral_2_eq_2)
  moreover have
    "node (returned_values (option_prices ''put'' ''european'' 100 100 (6/5) (4/5) 1 2 2)) 0 0
      = Some (val ''put'' ''european'' 100 100 (6/5) (4/5) (exp 1) 2 (Suc (Suc 0)) 0)"
    unfolding option_prices_ok [OF k(1,3) n] returned_values_Inr D
    by (simp add: node_tri numeral_2_eq_2)
  ultimately show ?thesis
    using american_put_example [OF exp_one_ge_two] european_put_example [of "exp 1"]
      european_put_example_pos [OF exp_one_ge_two]
    by simp
qed

text \<open>
  Claim C6, amended. For identical parameters with a kind in \<open>{call, put}\<close>,
  \<open>n_steps = N \<ge> 1\<close> and \<open>u \<noteq> v\<close>, both calls return and the American value lattice
  dominates the European one at every node of the last two layers: at layer \<open>N\<close> the two
  values are equal, at layer \<open>N - 1\<close> the American value is the maximum of the European
  value and the payoff at that node. Nothing is said about the layers below \<open>N - 1\<close>.
  At these two layers both calls evaluate the same expression on the same payoffs, so the
  order does not depend on how the arithmetic rounds.
\<close>

theorem american_dominates_european_last_layers:
  assumes "option_type = ''call'' \<or> option_type = ''put''"
    and "1 \<le> n_steps" and "u \<noteq> v"
  shows "\<exists>spA opA ovA spE opE ovE.
           option_prices option_type ''american'' strike_price stock_init_price u v
             risk_free_rate tot_time n_steps = Inr (spA, opA, ovA)
         \<and> option_prices option_type ''european'' strike_price stock_init_price u v
             risk_free_rate tot_time n_steps = Inr (spE, opE, ovE)
         \<and> (\<forall>j. j \<le> nat n_steps \<longrightarrow>
               (\<exists>x. node ovA (nat n_steps) j = Some x \<and> node ovE (nat n_steps) j = Some x))
         \<and> (\<forall>j. j < nat n_steps \<longrightarrow>
               (\<exists>a e p. node ovA (nat n_steps - 1) j = Some a
                      \<and> node ovE (nat n_steps - 1) j = Some e
                      \<and> node opA (nat n_steps - 1) j = Some p
                      \<and> a = max e p))
         \<and> (\<forall>i j. nat n_steps - 1 \<le> i \<longrightarrow> i \<le> nat n_steps \<longrightarrow> j \<le> i \<longrightarrow>
               (\<exists>a e. node ovA i j = Some a \<and> node ovE i j = Some e \<and> e \<le> a))"
proof -
  define N where "N = nat n_steps"
  define D where "D = exp (risk_free_rate * (tot_time / of_int n_steps))"
  define S where "S = stock stock_init_price u v"
  define P where "P = (\<lambda>i j. pay option_type strike_price (S i j))"
  define VA where "VA = val option_type ''american'' strike_price stock_init_price u v D N"
  define VE where "VE = val option_type ''european'' strike_price stock_init_price u v D N"
  note k = valid_kindI [OF assms(1)]
  have N: "0 < N"
    using assms(2) by (simp add: N_def)
  have A: "option_prices option_type ''american'' strike_price stock_init_price u v
          risk_free_rate tot_time n_steps
      = Inr (tri S N, tri P N, tri (\<lambda>i. VA (N - i)) N)"
    unfolding N_def D_def S_def P_def VA_def using k _ assms(3,2)
    by (rule option_prices_ok) (simp add: valid_species_def)
  have E: "option_prices option_type ''european'' strike_price stock_init_price u v
          risk_free_rate tot_time n_steps
      = Inr (tri S N, tri P N, tri (\<lambda>i. VE (N - i)) N)"
    unfolding N_def D_def S_def P_def VE_def using k _ assms(3,2)
    by (rule option_prices_ok) (simp add: valid_species_def)
  have v0: "VA 0 j = VE 0 j" for j
    unfolding VA_def VE_def by (rule val_last_layers)
  have v1: "VA (Suc 0) j = max (VE (Suc 0) j) (P (N - Suc 0) j)" for j
    unfolding VA_def VE_def P_def S_def by (rule val_last_layers)
  have top: "\<exists>x. node (tri (\<lambda>i. VA (N - i)) N) N j = Some x
               \<and> node (tri (\<lambda>i. VE (N - i)) N) N j = Some x"
    if "j \<le> N" for j
    using that by (simp add: node_tri v0)
  have d1: "N - (N - 1) = Suc 0"
    using N by simp
  have below: "\<exists>a e p. node (tri (\<lambda>i. VA (N - i)) N) (N - 1) j = Some a
                  \<and> node (tri (\<lambda>i. VE (N - i)) N) (N - 1) j = Some e
                  \<and> node (tri P N) (N - 1) j = Some p
                  \<and> a = max e p"
    if "j < N" for j
  proof -
    have b: "N - 1 \<le> N" "j \<le> N - 1"
      using that by arith+
    have "node (tri (\<lambda>i. VA (N - i)) N) (N - 1) j = Some (VA (Suc 0) j)"
      and "node (tri (\<lambda>i. VE (N - i)) N) (N - 1) j = Some (VE (Suc 0) j)"
      and "node (tri P N) (N - 1) j = Some (P (N - 1) j)"
      using b by (simp_all only: node_tri_in d1)
    then show ?thesis
      using v1 [of j] by simp
  qed
  have dom: "\<exists>a e. node (tri (\<lambda>i. VA (N - i)) N) i j = Some a
               \<and> node (tri (\<lambda>i. VE (N - i)) N) i j = Some e \<and> e \<le> a"
    if i: "N - 1 \<le> i" "i \<le> N" and j: "j \<le> i" for i j
  proof (cases "i = N")
    case True
    then show ?thesis
      using top [of j] j by auto
  next
    case False
    then have "i = N - 1" "j < N"
      using i j by arith+
    then show ?thesis
      using below [of j] by auto
  qed
  have T: "\<forall>j. j \<le> N \<longrightarrow>
      (\<exists>x. node (tri (\<lambda>i. VA (N - i)) N) N j = Some x
         \<and> node (tri (\<lambda>i. VE (N - i)) N) N j = Some x)"
    using top by blast
  have B: "\<forall>j. j < N \<longrightarrow>
      (\<exists>a e p. node (tri (\<lambda>i. VA (N - i)) N) (N - 1) j = Some a
             \<and> node (tri (\<lambda>i. VE (N - i)) N) (N - 1) j = Some e
             \<and> node (tri P N) (N - 1) j = Some p
             \<and> a = max e p)"
    using below by blast
  have M: "\<forall>i j. N - 1 \<le> i \<longrightarrow> i \<le> N \<longrightarrow> j \<le> i \<longrightarrow>
      (\<exists>a e. node (tri (\<lambda>i. VA (N - i)) N) i j = Some a
           \<and> node (tri (\<lambda>i. VE (N - i)) N) i j = Some e \<and> e \<le> a)"
    using dom by blast
  show ?thesis
    unfolding A E N_def [symmetric]
    by (rule exI [of _ "tri S N"], rule exI [of _ "tri P N"],
        rule exI [of _ "tri (\<lambda>i. VA (N - i)) N"],
        rule exI [of _ "tri S N"], rule exI [of _ "tri P N"],
        rule exI [of _ "tri (\<lambda>i. VE (N - i)) N"])
      (intro conjI refl T B M)
qed

theorem american_dominates_european_last_layers_witness:
  "\<exists>spA opA ovA spE opE ovE.
      option_prices ''put'' ''american'' 100 100 (6/5) (4/5) (1/20) 2 2 = Inr (spA, opA, ovA)
    \<and> option_prices ''put'' ''european'' 100 100 (6/5) (4/5) (1/20) 2 2 = Inr (spE, opE, ovE)
    \<and> (\<exists>x. node ovA 2 1 = Some x \<and> node ovE 2 1 = Some x)
    \<and> (\<exists>a e p. node ovA 1 1 = Some a \<and> node ovE 1 1 = Some e \<and> node opA 1 1 = Some p
           \<and> a = max e p)
    \<and> (\<exists>a e. node ovA 1 1 = Some a \<and> node ovE 1 1 = Some e \<and> e \<le> a)"
proof -
  have a: "''put'' = ''call'' \<or> ''put'' = ''put''" "(1::int) \<le> 2" "(6/5::real) \<noteq> 4/5"
    by simp_all
  from american_dominates_european_last_layers [OF a, of 100 100 "1/20" 2]
  obtain spA opA ovA spE opE ovE where
    r: "option_prices ''put'' ''american'' 100 100 (6/5) (4/5) (1/20) 2 2 = Inr (spA, opA, ovA)"
      "option_prices ''put'' ''european'' 100 100 (6/5) (4/5) (1/20) 2 2 = Inr (spE, opE, ovE)"
    and t: "\<forall>j. j \<le> nat 2 \<longrightarrow>
               (\<exists>x. node ovA (nat 2) j = Some x \<and> node ovE (nat 2) j = Some x)"
    and b: "\<forall>j. j < nat 2 \<longrightarrow>
               (\<exists>a e p. node ovA (nat 2 - 1) j = Some a \<and> node ovE (nat 2 - 1) j = Some e
                      \<and> node opA (nat 2 - 1) j = Some p \<and> a = max e p)"
    and m: "\<forall>i j. nat 2 - 1 \<le> i \<longrightarrow> i \<le> nat 2 \<longrightarrow> j \<le> i \<longrightarrow>
               (\<exists>a e. node ovA i j = Some a \<and> node ovE i j = Some e \<and> e \<le> a)"
    by (elim exE conjE) (rule that)
  have c1: "\<exists>x. node ovA 2 1 = Some x \<and> node ovE 2 1 = Some x"
    using t [rule_format, of 1] by simp
  have c2: "\<exists>a e p. node ovA 1 1 = Some a \<and> node ovE 1 1 = Some e
      \<and> node opA 1 1 = Some p \<and> a = max e p"
    using b [rule_format, of 1] by simp
  have c3: "\<exists>a e. node ovA 1 1 = Some a \<and> node ovE 1 1 = Some e \<and> e \<le> a"
    by (rule m [rule_format]) simp_all
  show ?thesis
    by (rule exI [of _ spA], rule exI [of _ opA], rule exI [of _ ovA],
        rule exI [of _ spE], rule exI [of _ opE], rule exI [of _ ovE])
      (intro conjI r c1 c2 c3)
qed



text \<open>
  Claim C8. For an option kind that is neither \<open>call\<close> nor \<open>put\<close>, any other
  arguments and \<open>n_steps \<ge> 1\<close>, \<open>option_prices\<close> fails with \<open>OptionTypeInvalid\<close> and returns
  nothing. The exception leaves the very first node \<open>(0, 0)\<close> of the forward loops, run on
  the freshly created placeholders: no payoff and no option value has been stored by then.
\<close>

theorem invalid_kind_raises:
  assumes "option_type \<noteq> ''call''" and "option_type \<noteq> ''put''" and "1 \<le> n_steps"
  shows "option_prices option_type option_species strike_price stock_init_price u v
           risk_free_rate tot_time n_steps = Inl OptionTypeInvalid
       \<and> forward_node option_type strike_price stock_init_price u v 0 0
           (init_state (n_steps + 1)) = Inl OptionTypeInvalid"
proof -
  have k: "\<not> valid_kind option_type"
    using assms(1,2) by (simp add: valid_kind_def)
  show ?thesis
    using assms(3)
    by (simp add: option_prices_invalid_kind [OF k] forward_node_invalid_kind [OF k])
qed

theorem invalid_kind_raises_witness:
  "option_prices ''forward'' ''european'' 100 100 (6/5) (4/5) (1/20) 2 2 = Inl OptionTypeInvalid
     \<and> forward_node ''forward'' 100 100 (6/5) (4/5) 0 0 (init_state (2 + 1))
         = Inl OptionTypeInvalid"
  using invalid_kind_raises [of "''forward''" 2 "''european''" 100 100 "6/5" "4/5" "1/20" 2]
  by simp

text \<open>
  Claim C9. For an option style that is neither \<open>european\<close> nor \<open>american\<close>, a kind
  in \<open>{call, put}\<close> and \<open>n_steps \<ge> 1\<close>, \<open>option_prices\<close> raises \<open>OptionSpeciesInvalid\<close>; the
  result is the exception alone, no lattice comes with it.
\<close>

theorem invalid_style_raises:
  assumes "option_type = ''call'' \<or> option_type = ''put''"
    and "option_species \<noteq> ''european''" and "option_species \<noteq> ''american''"
    and "1 \<le> n_steps"
  shows "option_prices option_type option_species strike_price stock_init_price u v
           risk_free_rate tot_time n_steps = Inl OptionSpeciesInvalid"
proof -
  have "\<not> valid_species option_species"
    using assms(2,3) by (simp add: valid_species_def)
  then show ?thesis
    using valid_kindI [OF assms(1)] assms(4) by (intro option_prices_invalid_species)
qed

theorem invalid_style_raises_witness:
  "option_prices ''call'' ''bermudan'' 100 100 (6/5) (4/5) (1/20) 2 2 = Inl OptionSpeciesInvalid"
  using invalid_style_raises [of "''call''" "''bermudan''" 2 100 100 "6/5" "4/5" "1/20" 2]
  by simp

text \<open>
  Claim C10. When the option kind and the option style are both invalid and
  \<open>n_steps \<ge> 1\<close>, \<open>option_prices\<close> raises \<open>OptionTypeInvalid\<close>, not
  \<open>OptionSpeciesInvalid\<close>: the forward pass, which never looks at the style, already
  fails.
\<close>

theorem invalid_kind_precedes_invalid_style:
  assumes "option_type \<noteq> ''call''" and "option_type \<noteq> ''put''"
    and "option_species \<noteq> ''european''" and "option_species \<noteq> ''american''"
    and "1 \<le> n_steps"
  shows "option_prices option_type option_species strike_price stock_init_price u v
           risk_free_rate tot_time n_steps = Inl OptionTypeInvalid
       \<and> forward_pass option_type strike_price stock_init_price u v (n_steps + 1)
           (init_state (n_steps + 1)) = Inl OptionTypeInvalid"
proof -
  have k: "\<not> valid_kind option_type"
    using assms(1,2) by (simp add: valid_kind_def)
  have "0 < n_steps + 1"
    using assms(5) by simp
  then show ?thesis
    using option_prices_invalid_kind [OF k assms(5)] forward_pass_invalid_kind [OF k]
    by simp
qed

theorem invalid_kind_precedes_invalid_style_witness:
  "option_prices ''forward'' ''bermudan'' 100 100 (6/5) (4/5) (1/20) 2 2 = Inl OptionTypeInvalid
     \<and> forward_pass ''forward'' 100 100 (6/5) (4/5) (2 + 1) (init_state (2 + 1))
         = Inl OptionTypeInvalid"
  using invalid_kind_precedes_invalid_style
    [of "''forward''" "''bermudan''" 2 100 100 "6/5" "4/5" "1/20" 2]
  by simp

end
